theory Spec2Isabelle
  imports Main "HOL-Library.Word"
begin

section \<open>Strings, chain rows and the database handle\<close>

text \<open>
  A JavaScript string is a sequence of UTF-16 code units, and \<open>s.length\<close> counts code
  units; the model keeps that: a string is a list of 16-bit words and \<open>length\<close> is
  \<open>.length\<close>.  A string is truthy exactly when it is not empty.
\<close>

type_synonym jschar = "16 word"
type_synonym jsstring = "jschar list"

text \<open>
  The table \<open>markov_chain (prefix1 TEXT, prefix2 TEXT, suffix TEXT,
  UNIQUE(prefix1, prefix2, suffix))\<close>: one row per stored triple, kept in insertion order.
\<close>

datatype row = Row (prefix1: jsstring) (prefix2: jsstring) (suffix: jsstring)

text \<open>
  The \<open>better-sqlite3\<close> handle \<open>db\<close>.  The program closes it with \<open>db.close()\<close> in its
  signal handlers; preparing a statement on a closed connection throws.  \<open>is_open\<close> is
  the connection state, \<open>rows\<close> the content of the table.
\<close>

record database =
  rows :: "row list"
  is_open :: bool

datatype error = SqliteError | TokenizeError

text \<open>
  \<open>dbGet\<close> and \<open>dbAll\<close> receive the outcome of \<open>db.prepare(query).get(...params)\<close> and
  \<open>db.prepare(query).all(...params)\<close>; the \<open>catch\<close> turns a thrown error into \<open>null\<close>
  and \<open>[]\<close>.
\<close>

definition dbGet :: "error + 'a option \<Rightarrow> 'a option" where
  "dbGet r = (case r of Inl e \<Rightarrow> None | Inr x \<Rightarrow> x)"

definition dbAll :: "error + 'a list \<Rightarrow> 'a list" where
  "dbAll r = (case r of Inl e \<Rightarrow> [] | Inr xs \<Rightarrow> xs)"

text \<open>
  The statements the program runs.  \<open>ORDER BY RANDOM() LIMIT 1\<close> returns one row of the
  table, or none when the table is empty; which row is SQLite's choice, given here by
  the number \<open>r\<close>.
\<close>

definition select_random_start :: "database \<Rightarrow> nat \<Rightarrow> error + (jsstring \<times> jsstring) option" where
  \<comment> \<open>\<open>SELECT prefix1, prefix2 FROM markov_chain ORDER BY RANDOM() LIMIT 1\<close>\<close>
  "select_random_start db r =
     (if \<not> is_open db then Inl SqliteError
      else if rows db = [] then Inr None
      else Inr (Some (prefix1 (rows db ! (r mod length (rows db))),
                      prefix2 (rows db ! (r mod length (rows db))))))"

definition select_suffixes :: "database \<Rightarrow> jsstring \<Rightarrow> jsstring \<Rightarrow> error + jsstring list" where
  \<comment> \<open>\<open>SELECT suffix FROM markov_chain WHERE prefix1 = ? AND prefix2 = ?\<close>\<close>
  "select_suffixes db a b =
     (if \<not> is_open db then Inl SqliteError
      else Inr (map suffix (filter (\<lambda>x. prefix1 x = a \<and> prefix2 x = b) (rows db))))"

definition select_start_candidates ::
  "database \<Rightarrow> jsstring \<Rightarrow> jsstring \<Rightarrow> error + (jsstring \<times> jsstring) list" where
  \<comment> \<open>\<open>SELECT prefix1, prefix2 FROM markov_chain WHERE prefix1 = ? OR prefix2 = ?\<close>\<close>
  "select_start_candidates db a b =
     (if \<not> is_open db then Inl SqliteError
      else Inr (map (\<lambda>x. (prefix1 x, prefix2 x))
                  (filter (\<lambda>x. prefix1 x = a \<or> prefix2 x = b) (rows db))))"

definition select_count :: "database \<Rightarrow> error + nat option" where
  \<comment> \<open>\<open>SELECT COUNT(*) as count FROM markov_chain\<close>\<close>
  "select_count db =
     (if \<not> is_open db then Inl SqliteError else Inr (Some (length (rows db))))"

definition select_count_distinct :: "database \<Rightarrow> error + nat option" where
  \<comment> \<open>\<open>SELECT COUNT(DISTINCT prefix1 || prefix2) as count FROM markov_chain\<close>\<close>
  "select_count_distinct db =
     (if \<not> is_open db then Inl SqliteError
      else Inr (Some (length (remdups (map (\<lambda>x. prefix1 x @ prefix2 x) (rows db))))))"

definition insertStmt_run :: "database \<Rightarrow> jsstring \<Rightarrow> jsstring \<Rightarrow> jsstring \<Rightarrow> database \<times> nat" where
  \<comment> \<open>\<open>INSERT OR IGNORE INTO markov_chain (prefix1, prefix2, suffix) VALUES (?, ?, ?)\<close>;
      the second component is \<open>result.changes\<close>\<close>
  "insertStmt_run db a b c =
     (if Row a b c \<in> set (rows db) then (db, 0)
      else (db\<lparr>rows := rows db @ [Row a b c]\<rparr>, 1))"


section \<open>The tokenizer and the random source\<close>

text \<open>
  The kuromoji tokenizer is outside the program: a function from a text to its tokens
  that may throw.  The program reads only \<open>surface_form\<close>.  The global \<open>tokenizer\<close> is
  undefined until the dictionary is loaded.
\<close>

record token =
  surface_form :: jsstring

type_synonym tokenizer = "jsstring \<Rightarrow> error + token list"

text \<open>
  \<open>Math.random()\<close> is a stream of draws.  \<open>Math.floor(Math.random() * n)\<close> is an index
  below \<open>n\<close> for \<open>n > 0\<close>; the draw is an arbitrary number reduced modulo \<open>n\<close>.
\<close>

type_synonym rng = "nat \<Rightarrow> nat"

definition math_random_index :: "rng \<Rightarrow> nat \<Rightarrow> nat \<times> rng" where
  "math_random_index rnd n = (rnd 0 mod n, rnd \<circ> Suc)"


section \<open>Generation\<close>

definition msg_insufficient_data :: jsstring where
  "msg_insufficient_data =
     [0x30C7, 0x30FC, 0x30BF, 0x30D9, 0x30FC, 0x30B9, 0x306B, 0x5341, 0x5206, 0x306A,
      0x30C7, 0x30FC, 0x30BF, 0x304C, 0x3042, 0x308A, 0x307E, 0x305B, 0x3093, 0x3002]"

definition msg_sentence_error :: jsstring where
  "msg_sentence_error =
     [0x6587, 0x7AE0, 0x306E, 0x751F, 0x6210, 0x4E2D, 0x306B, 0x30A8, 0x30E9, 0x30FC,
      0x304C, 0x767A, 0x751F, 0x3057, 0x307E, 0x3057, 0x305F, 0x3002]"

definition msg_tokenizer_not_ready :: jsstring where
  "msg_tokenizer_not_ready =
     [0x30C8, 0x30FC, 0x30AF, 0x30CA, 0x30A4, 0x30B6, 0x30FC, 0x304C, 0x6E96, 0x5099,
      0x3067, 0x304D, 0x3066, 0x3044, 0x307E, 0x305B, 0x3093, 0x3002]"

definition msg_response_error :: jsstring where
  "msg_response_error =
     [0x5FDC, 0x7B54, 0x306E, 0x751F, 0x6210, 0x4E2D, 0x306B, 0x30A8, 0x30E9, 0x30FC,
      0x304C, 0x767A, 0x751F, 0x3057, 0x307E, 0x3057, 0x305F, 0x3002]"

text \<open>
  The loop \<open>for (let i = 0; i < maxWords; i++)\<close>, written identically in both generation
  functions.  The first numeric argument is the number of iterations still allowed;
  \<open>sentence\<close> is the array being extended by \<open>push\<close>.  The callers pass a count
  (the slash command's option between 10 and 200, or the default 50).
\<close>

fun walk :: "database \<Rightarrow> rng \<Rightarrow> nat \<Rightarrow> jsstring \<Rightarrow> jsstring \<Rightarrow> jsstring list
               \<Rightarrow> jsstring list \<times> rng" where
  "walk db rnd 0 p1 p2 sentence = (sentence, rnd)"
| "walk db rnd (Suc n) p1 p2 sentence =
     (let suffixes = dbAll (select_suffixes db p1 p2) in
      if length suffixes = 0 then (sentence, rnd)
      else
        let (k, rnd') = math_random_index rnd (length suffixes);
            nextSuffix = suffixes ! k
        in walk db rnd' n p2 nextSuffix (sentence @ [nextSuffix]))"

text \<open>
  \<open>generateMarkovSentence\<close>: the array \<open>sentence\<close> at the end of the loop (none when
  \<open>startRow\<close> is missing), the \<open>try\<close> block, and the function with its \<open>catch\<close>.
\<close>

definition generateMarkovSentence_sentence ::
  "database \<Rightarrow> nat \<Rightarrow> rng \<Rightarrow> nat \<Rightarrow> jsstring list option" where
  "generateMarkovSentence_sentence db r rnd maxWords =
     (case dbGet (select_random_start db r) of
        None \<Rightarrow> None
      | Some (p1, p2) \<Rightarrow> Some (fst (walk db rnd maxWords p1 p2 [p1, p2])))"

definition generateMarkovSentence_try :: "database \<Rightarrow> nat \<Rightarrow> rng \<Rightarrow> nat \<Rightarrow> error + jsstring" where
  "generateMarkovSentence_try db r rnd maxWords =
     (case generateMarkovSentence_sentence db r rnd maxWords of
        None \<Rightarrow> Inr msg_insufficient_data
      | Some sentence \<Rightarrow> Inr (concat sentence))"

definition generateMarkovSentence :: "database \<Rightarrow> nat \<Rightarrow> rng \<Rightarrow> nat \<Rightarrow> jsstring" where
  "generateMarkovSentence db r rnd maxWords =
     (case generateMarkovSentence_try db r rnd maxWords of
        Inl e \<Rightarrow> msg_sentence_error
      | Inr s \<Rightarrow> s)"

text \<open>The \<open>for (const word of words)\<close> loop with its \<open>break\<close>.\<close>

fun for_words :: "database \<Rightarrow> jsstring list \<Rightarrow> (jsstring \<times> jsstring) list
                    \<Rightarrow> (jsstring \<times> jsstring) list" where
  "for_words db [] startCandidates = startCandidates"
| "for_words db (word # rest) startCandidates =
     (let found = dbAll (select_start_candidates db word word) in
      if length found > 0 then found else for_words db rest found)"

text \<open>
  Lines 249 to 264: the last two words, the first search, and the search over every
  word when the first one found nothing.
\<close>

definition find_start_candidates :: "database \<Rightarrow> jsstring list \<Rightarrow> (jsstring \<times> jsstring) list" where
  "find_start_candidates db words =
     (let lastTwoWords = drop (length words - 2) words;
          p1 = lastTwoWords ! 0;
          p2 = (if lastTwoWords ! 1 \<noteq> [] then lastTwoWords ! 1 else []);
          startCandidates = dbAll (select_start_candidates db p1 p2)
      in if length startCandidates = 0 then for_words db words startCandidates
         else startCandidates)"

text \<open>Lines 272 to 290: the choice of the start point and the walk from it.\<close>

definition seeded_walk :: "database \<Rightarrow> rng \<Rightarrow> nat \<Rightarrow> (jsstring \<times> jsstring) list
                             \<Rightarrow> jsstring list \<times> rng" where
  "seeded_walk db rnd maxWords startCandidates =
     (let (k, rnd') = math_random_index rnd (length startCandidates);
          (p1, p2) = startCandidates ! k
      in walk db rnd' maxWords p1 p2 [p1, p2])"

definition generateResponseFromMessage_try ::
  "tokenizer option \<Rightarrow> database \<Rightarrow> nat \<Rightarrow> rng \<Rightarrow> jsstring \<Rightarrow> nat \<Rightarrow> error + jsstring" where
  "generateResponseFromMessage_try tokenizer db r rnd inputMessage maxWords =
     (case tokenizer of
        None \<Rightarrow> Inr msg_tokenizer_not_ready
      | Some tokenize \<Rightarrow>
          (case tokenize inputMessage of
             Inl e \<Rightarrow> Inl e
           | Inr tokens \<Rightarrow>
               let words = map surface_form tokens in
               if length words < 2 then Inr (generateMarkovSentence db r rnd maxWords)
               else
                 let startCandidates = find_start_candidates db words in
                 if length startCandidates = 0
                 then Inr (generateMarkovSentence db r rnd maxWords)
                 else
                   let (sentence, rnd') = seeded_walk db rnd maxWords startCandidates;
                       result = concat sentence
                   in if length result < 10
                      then Inr (generateMarkovSentence db r rnd' maxWords)
                      else Inr result))"

definition generateResponseFromMessage ::
  "tokenizer option \<Rightarrow> database \<Rightarrow> nat \<Rightarrow> rng \<Rightarrow> jsstring \<Rightarrow> nat \<Rightarrow> jsstring" where
  "generateResponseFromMessage tokenizer db r rnd inputMessage maxWords =
     (case generateResponseFromMessage_try tokenizer db r rnd inputMessage maxWords of
        Inl e \<Rightarrow> msg_response_error
      | Inr s \<Rightarrow> s)"


section \<open>Ingestion\<close>

text \<open>A crawled message; the program reads only \<open>content\<close>, which may be missing.\<close>

record message =
  content :: "jsstring option"

text \<open>The state of the transaction function: the table and its two counters.\<close>

record ingest =
  store :: database
  processedMessages :: nat
  insertedChains :: nat

text \<open>The body of \<open>for (let i = 0; i < words.length - 2; i++)\<close>.\<close>

definition window_step :: "jsstring list \<Rightarrow> nat \<Rightarrow> ingest \<Rightarrow> ingest" where
  "window_step words i st =
     (if words ! i \<noteq> [] \<and> words ! (i + 1) \<noteq> [] \<and> words ! (i + 2) \<noteq> [] then
        let (db', changes) =
              insertStmt_run (store st) (words ! i) (words ! (i + 1)) (words ! (i + 2))
        in if changes > 0
           then st\<lparr>store := db', insertedChains := insertedChains st + 1\<rparr>
           else st\<lparr>store := db'\<rparr>
      else st)"

text \<open>
  The body of \<open>for (const msg of messages)\<close>: each \<open>continue\<close> leaves the state as it
  is.  The index loop runs after the check \<open>words.length < 3\<close>, so \<open>words.length - 2\<close>
  is at least 1 there.
\<close>

definition process_message :: "tokenizer \<Rightarrow> message \<Rightarrow> ingest \<Rightarrow> ingest" where
  "process_message tokenize msg st =
     (case content msg of
        None \<Rightarrow> st
      | Some text \<Rightarrow>
          if text = [] then st
          else
            (case tokenize text of
               Inl e \<Rightarrow> st
             | Inr tokens \<Rightarrow>
                 let words = map surface_form tokens in
                 if length words < 3 then st
                 else
                   let st' = fold (window_step words) [0..<length words - 2] st
                   in st'\<lparr>processedMessages := processedMessages st' + 1\<rparr>))"

definition transaction_fn :: "tokenizer \<Rightarrow> database \<Rightarrow> message list \<Rightarrow> ingest" where
  "transaction_fn tokenize db messages =
     fold (process_message tokenize) messages
       \<lparr>store = db, processedMessages = 0, insertedChains = 0\<rparr>"

text \<open>
  \<open>db.transaction(fn)\<close>: the call begins a transaction, which throws on a closed
  connection, runs the function and commits.
\<close>

definition transaction :: "tokenizer \<Rightarrow> database \<Rightarrow> message list \<Rightarrow> error + ingest" where
  "transaction tokenize db messages =
     (if \<not> is_open db then Inl SqliteError
      else Inr (transaction_fn tokenize db messages))"


section \<open>Statistics\<close>

text \<open>\<open>handleStatsCommand\<close>: the two numbers it prints, \<open>count || 0\<close>.\<close>

definition totalChains :: "database \<Rightarrow> nat" where
  "totalChains db = (case dbGet (select_count db) of None \<Rightarrow> 0 | Some c \<Rightarrow> c)"

definition uniquePrefixes :: "database \<Rightarrow> nat" where
  "uniquePrefixes db = (case dbGet (select_count_distinct db) of None \<Rightarrow> 0 | Some c \<Rightarrow> c)"


section \<open>Vocabulary of the specification\<close>

text \<open>
  \<open>continuationsOf(p1, p2)\<close> is the query the walk runs at each step.  \<open>follows rs p1 p2 ws\<close>
  says that the words \<open>ws\<close> can be appended one after the other starting at the pair
  \<open>(p1, p2)\<close>: each word \<open>w\<close> is the suffix of a stored triple whose prefixes are the
  current pair, and the pair becomes \<open>(p2, w)\<close>.  \<open>final_pair\<close> is the pair reached.
\<close>

definition continuationsOf :: "database \<Rightarrow> jsstring \<times> jsstring \<Rightarrow> jsstring list" where
  "continuationsOf db p = dbAll (select_suffixes db (fst p) (snd p))"

fun follows :: "row list \<Rightarrow> jsstring \<Rightarrow> jsstring \<Rightarrow> jsstring list \<Rightarrow> bool" where
  "follows rs p1 p2 [] = True"
| "follows rs p1 p2 (w # ws) = (Row p1 p2 w \<in> set rs \<and> follows rs p2 w ws)"

fun final_pair :: "jsstring \<Rightarrow> jsstring \<Rightarrow> jsstring list \<Rightarrow> jsstring \<times> jsstring" where
  "final_pair p1 p2 [] = (p1, p2)"
| "final_pair p1 p2 (w # ws) = final_pair p2 w ws"

text \<open>
  Ingestion.  \<open>message_words\<close> is the word sequence a record's text is tokenized to,
  when the text is present and not empty and the tokenizer returns.  \<open>record_triples\<close>
  follows the specification: for each index \<open>i\<close> from 0 to \<open>n - 3\<close> the triple
  \<open>(words[i], words[i+1], words[i+2])\<close>, kept when all three words are non-empty.
  \<open>upsertTriple\<close> inserts a triple if it is absent and counts the insertion.
  \<open>message_triples\<close> are the triples a record contributes.
\<close>

definition message_words :: "tokenizer \<Rightarrow> message \<Rightarrow> jsstring list option" where
  "message_words tokenize msg =
     (case content msg of
        None \<Rightarrow> None
      | Some text \<Rightarrow>
          if text = [] then None
          else (case tokenize text of
                  Inl e \<Rightarrow> None
                | Inr tokens \<Rightarrow> Some (map surface_form tokens)))"

definition window_triple :: "jsstring list \<Rightarrow> nat \<Rightarrow> row" where
  "window_triple words i = Row (words ! i) (words ! (i + 1)) (words ! (i + 2))"

definition nonempty_triple :: "row \<Rightarrow> bool" where
  "nonempty_triple t = (prefix1 t \<noteq> [] \<and> prefix2 t \<noteq> [] \<and> suffix t \<noteq> [])"

definition record_triples :: "jsstring list \<Rightarrow> row list" where
  "record_triples words =
     filter nonempty_triple (map (window_triple words) [0..<length words - 2])"

definition upsertTriple :: "row \<Rightarrow> ingest \<Rightarrow> ingest" where
  "upsertTriple t st =
     (if t \<in> set (rows (store st)) then st
      else st\<lparr>store := (store st)\<lparr>rows := rows (store st) @ [t]\<rparr>,
              insertedChains := insertedChains st + 1\<rparr>)"

definition message_triples :: "tokenizer \<Rightarrow> message \<Rightarrow> row list" where
  "message_triples tokenize msg =
     (case message_words tokenize msg of
        None \<Rightarrow> []
      | Some words \<Rightarrow> if length words < 3 then [] else record_triples words)"

text \<open>
  Seeded search and statistics.  \<open>findNodesContaining(word)\<close> is the query of the
  per-word loop, with the word bound to both parameters.  \<open>first_search\<close> is the query
  on the last two words of the input.  \<open>countDistinctNodes\<close> follows the
  specification: the number of distinct pairs \<open>(prefix1, prefix2)\<close> in the table.
\<close>

definition findNodesContaining :: "database \<Rightarrow> jsstring \<Rightarrow> (jsstring \<times> jsstring) list" where
  "findNodesContaining db word = dbAll (select_start_candidates db word word)"

definition first_search :: "database \<Rightarrow> jsstring list \<Rightarrow> (jsstring \<times> jsstring) list" where
  "first_search db words =
     dbAll (select_start_candidates db (words ! (length words - 2)) (words ! (length words - 1)))"

definition countDistinctNodes :: "database \<Rightarrow> nat" where
  "countDistinctNodes db = length (remdups (map (\<lambda>x. (prefix1 x, prefix2 x)) (rows db)))"


section \<open>Example data\<close>

text \<open>
  A table holding the triples \<open>(a, b, c)\<close> and \<open>(b, c, d)\<close> of one-letter words, and an
  empty table.
\<close>

definition example_db :: database where
  "example_db = \<lparr>rows = [Row [0x61] [0x62] [0x63], Row [0x62] [0x63] [0x64]], is_open = True\<rparr>"

definition empty_db :: database where
  "empty_db = \<lparr>rows = [], is_open = True\<rparr>"

text \<open>
  A tokenizer that makes one token of every code unit, the messages \<open>abcd\<close> and \<open>ab\<close>,
  and the state of a transaction that starts on the empty table.
\<close>

definition char_tokenize :: tokenizer where
  "char_tokenize text = Inr (map (\<lambda>c. \<lparr>surface_form = [c]\<rparr>) text)"

definition example_message :: message where
  "example_message = \<lparr>content = Some [0x61, 0x62, 0x63, 0x64]\<rparr>"

definition short_message :: message where
  "short_message = \<lparr>content = Some [0x61, 0x62]\<rparr>"


text \<open>
  A table in which the word \<open>a\<close> is the first prefix of one row and the second prefix
  of another; a table whose two rows continue each other for ever; a table with the
  rows (U+6771, U+4EAC U+90FD, U+306B) and (U+6771 U+4EAC, U+90FD, U+306B), two
  segmentations of the same three characters; and a tokenizer that throws.
\<close>

definition seed_db :: database where
  "seed_db = \<lparr>rows = [Row [0x61] [0x71] [0x7A], Row [0x78] [0x61] [0x7A]], is_open = True\<rparr>"

definition cycle_db :: database where
  "cycle_db = \<lparr>rows = [Row [0x61] [0x62] [0x61], Row [0x62] [0x61] [0x62]], is_open = True\<rparr>"

definition collision_db :: database where
  "collision_db =
     \<lparr>rows = [Row [0x6771] [0x4EAC, 0x90FD] [0x306B], Row [0x6771, 0x4EAC] [0x90FD] [0x306B]],
      is_open = True\<rparr>"



text \<open>
  A table with two rows of the same prefix pair; a table whose only row has the word
  \<open>a\<close> as its second prefix; and the table of \<open>example_db\<close> behind a closed connection.
\<close>

definition twice_db :: database where
  "twice_db =
     \<lparr>rows = [Row [0x61] [0x71] [0x7A], Row [0x61] [0x71] [0x79], Row [0x6D] [0x62] [0x6F]],
      is_open = True\<rparr>"

definition single_db :: database where
  "single_db = \<lparr>rows = [Row [0x78] [0x61] [0x7A]], is_open = True\<rparr>"



section \<open>Properties of the walk and of unseeded generation\<close>

lemma continuationsOf_in_rows:
  "w \<in> set (continuationsOf db (a, b)) \<Longrightarrow> Row a b w \<in> set (rows db)"
  by (auto simp: continuationsOf_def dbAll_def select_suffixes_def split: if_splits)

text \<open>
  What the loop returns, for any start of the array: the array extended by at most \<open>n\<close>
  words that follow the pair, and either all \<open>n\<close> iterations ran or the pair reached
  has no continuation.
\<close>

lemma walk_result:
  "\<exists>ws. fst (walk db rnd n p1 p2 acc) = acc @ ws \<and> follows (rows db) p1 p2 ws
        \<and> length ws \<le> n
        \<and> (length ws = n \<or> continuationsOf db (final_pair p1 p2 ws) = [])"
proof (induction n arbitrary: rnd p1 p2 acc)
  case 0
  show ?case by simp
next
  case (Suc n)
  let ?sx = "continuationsOf db (p1, p2)"
  show ?case
  proof (cases "?sx = []")
    case True
    then have "fst (walk db rnd (Suc n) p1 p2 acc) = acc"
      by (simp add: continuationsOf_def)
    with True show ?thesis by (intro exI [of _ "[]"]) simp
  next
    case False
    define k where "k = rnd 0 mod length ?sx"
    define w where "w = ?sx ! k"
    from False have "k < length ?sx" by (simp add: k_def)
    then have "w \<in> set ?sx" by (simp add: w_def)
    then have inrows: "Row p1 p2 w \<in> set (rows db)" by (rule continuationsOf_in_rows)
    have step: "walk db rnd (Suc n) p1 p2 acc = walk db (rnd \<circ> Suc) n p2 w (acc @ [w])"
      using False by (simp add: continuationsOf_def math_random_index_def k_def w_def Let_def)
    from Suc.IH [of "rnd \<circ> Suc" p2 w "acc @ [w]"]
    obtain ws where ws: "fst (walk db (rnd \<circ> Suc) n p2 w (acc @ [w])) = (acc @ [w]) @ ws"
      "follows (rows db) p2 w ws" "length ws \<le> n"
      "length ws = n \<or> continuationsOf db (final_pair p2 w ws) = []"
      by blast
    show ?thesis
      using ws inrows step by (intro exI [of _ "w # ws"]) auto
  qed
qed

lemma final_pair_nth:
  "final_pair p1 p2 ws = ((p1 # p2 # ws) ! length ws, (p1 # p2 # ws) ! Suc (length ws))"
  by (induction ws arbitrary: p1 p2) simp_all

lemma walk_first_step:
  assumes "continuationsOf db (p1, p2) \<noteq> []"
  shows "length acc < length (fst (walk db rnd (Suc n) p1 p2 acc))"
proof -
  let ?sx = "continuationsOf db (p1, p2)"
  let ?w = "?sx ! (rnd 0 mod length ?sx)"
  have step: "walk db rnd (Suc n) p1 p2 acc = walk db (rnd \<circ> Suc) n p2 ?w (acc @ [?w])"
    using assms by (simp add: continuationsOf_def math_random_index_def Let_def)
  from walk_result [of db "rnd \<circ> Suc" n p2 ?w "acc @ [?w]"]
  obtain ws where "fst (walk db (rnd \<circ> Suc) n p2 ?w (acc @ [?w])) = (acc @ [?w]) @ ws"
    by blast
  with step show ?thesis by simp
qed

lemma walk_bound:
  "\<exists>ws. fst (walk db rnd n p1 p2 [p1, p2]) = p1 # p2 # ws \<and> length ws \<le> n
        \<and> (length ws = n \<or>
            continuationsOf db ((p1 # p2 # ws) ! length ws, (p1 # p2 # ws) ! Suc (length ws)) = [])"
  using walk_result [of db rnd n p1 p2 "[p1, p2]"] by (auto simp: final_pair_nth)

lemma bounded_shape:
  assumes "\<exists>ws. s = p1 # p2 # ws \<and> length ws \<le> n
        \<and> (length ws = n \<or>
            continuationsOf db ((p1 # p2 # ws) ! length ws, (p1 # p2 # ws) ! Suc (length ws)) = [])"
  shows "2 \<le> length s \<and> length s \<le> n + 2
         \<and> (length s = n + 2 \<or> continuationsOf db (s ! (length s - 2), s ! (length s - 1)) = [])"
  using assms by auto

lemma seeded_walk_unfold:
  "\<exists>rnd' p1 p2. seeded_walk db rnd maxWords startCandidates = walk db rnd' maxWords p1 p2 [p1, p2]"
proof -
  obtain k rnd' where k: "math_random_index rnd (length startCandidates) = (k, rnd')"
    by (cases "math_random_index rnd (length startCandidates)")
  obtain p1 p2 where p: "startCandidates ! k = (p1, p2)"
    by (cases "startCandidates ! k")
  have "seeded_walk db rnd maxWords startCandidates = walk db rnd' maxWords p1 p2 [p1, p2]"
    by (simp add: seeded_walk_def k p)
  then show ?thesis by blast
qed

lemma sentence_unfold:
  assumes "generateMarkovSentence_sentence db r rnd maxWords = Some sentence"
  shows "\<exists>p1 p2. sentence = fst (walk db rnd maxWords p1 p2 [p1, p2])"
  using assms by (auto simp: generateMarkovSentence_sentence_def split: option.splits)

lemma example_sentence_5:
  "generateMarkovSentence_sentence example_db 0 (\<lambda>k. 0) 5 = Some [[0x61], [0x62], [0x63], [0x64]]"
  by (simp add: generateMarkovSentence_sentence_def example_db_def dbGet_def dbAll_def
      select_random_start_def select_suffixes_def math_random_index_def eval_nat_numeral)

lemma example_sentence_1:
  "generateMarkovSentence_sentence example_db 0 (\<lambda>k. 0) 1 = Some [[0x61], [0x62], [0x63]]"
  by (simp add: generateMarkovSentence_sentence_def example_db_def dbGet_def dbAll_def
      select_random_start_def select_suffixes_def math_random_index_def)

lemma example_seeded_walk:
  "fst (seeded_walk example_db (\<lambda>k. 0) 5 [([0x62], [0x63])]) = [[0x62], [0x63], [0x64]]"
  by (simp add: seeded_walk_def example_db_def dbAll_def
      select_suffixes_def math_random_index_def eval_nat_numeral)


text \<open>
  C3 (walk validity).  In unseeded and in seeded generation the array \<open>sentence\<close> is a
  start pair followed by words each of which is the suffix of a triple of the table
  whose two prefixes are the current pair of the walk; after each word the pair is the
  old second word and the new word.  The table is the one of the call.
\<close>

theorem walk_validity:
  "(generateMarkovSentence_sentence db r rnd maxWords = Some sentence \<longrightarrow>
      (\<exists>p1 p2 ws. sentence = p1 # p2 # ws \<and> follows (rows db) p1 p2 ws))
   \<and> (\<exists>p1 p2 ws. fst (seeded_walk db rnd maxWords startCandidates) = p1 # p2 # ws
          \<and> follows (rows db) p1 p2 ws)"
proof
  show "generateMarkovSentence_sentence db r rnd maxWords = Some sentence \<longrightarrow>
      (\<exists>p1 p2 ws. sentence = p1 # p2 # ws \<and> follows (rows db) p1 p2 ws)"
  proof
    assume "generateMarkovSentence_sentence db r rnd maxWords = Some sentence"
    then obtain p1 p2 where "sentence = fst (walk db rnd maxWords p1 p2 [p1, p2])"
      using sentence_unfold by blast
    with walk_result [of db rnd maxWords p1 p2 "[p1, p2]"]
    show "\<exists>p1 p2 ws. sentence = p1 # p2 # ws \<and> follows (rows db) p1 p2 ws"
      by auto
  qed
next
  from seeded_walk_unfold obtain rnd' p1 p2 where
    "seeded_walk db rnd maxWords startCandidates = walk db rnd' maxWords p1 p2 [p1, p2]"
    by blast
  with walk_result [of db rnd' maxWords p1 p2 "[p1, p2]"]
  show "\<exists>p1 p2 ws. fst (seeded_walk db rnd maxWords startCandidates) = p1 # p2 # ws
          \<and> follows (rows db) p1 p2 ws"
    by auto
qed

theorem walk_validity_witness:
  "generateMarkovSentence_sentence example_db 0 (\<lambda>k. 0) 5 = Some [[0x61], [0x62], [0x63], [0x64]]
   \<and> (\<exists>p1 p2 ws. [[0x61], [0x62], [0x63], [0x64]] = p1 # p2 # ws
         \<and> follows (rows example_db) p1 p2 ws)"
  using walk_validity [of example_db 0 "\<lambda>k. 0" 5 "[[0x61], [0x62], [0x63], [0x64]]"]
        example_sentence_5
  by simp


text \<open>
  C4 (bounded length).  For every \<open>maxWords\<close> the array \<open>sentence\<close> of either generation
  function has at least the 2 words of the start pair and at most \<open>maxWords + 2\<close> words;
  when it has fewer than \<open>maxWords + 2\<close>, the walk stopped because the pair it had
  reached, the last two words, has no continuation.  The loop is a total function, so
  the walk always ends.
\<close>

theorem bounded_length:
  "(generateMarkovSentence_sentence db r rnd maxWords = Some sentence \<longrightarrow>
      2 \<le> length sentence \<and> length sentence \<le> maxWords + 2
      \<and> (length sentence = maxWords + 2
          \<or> continuationsOf db (sentence ! (length sentence - 2),
                                  sentence ! (length sentence - 1)) = []))
   \<and> (fst (seeded_walk db rnd maxWords startCandidates) = sentence' \<longrightarrow>
      2 \<le> length sentence' \<and> length sentence' \<le> maxWords + 2
      \<and> (length sentence' = maxWords + 2
          \<or> continuationsOf db (sentence' ! (length sentence' - 2),
                                  sentence' ! (length sentence' - 1)) = []))"
proof (intro conjI impI)
  assume a: "generateMarkovSentence_sentence db r rnd maxWords = Some sentence"
  then obtain p1 p2 where
    s: "sentence = fst (walk db rnd maxWords p1 p2 [p1, p2])"
    using sentence_unfold by blast
  have b: "2 \<le> length sentence \<and> length sentence \<le> maxWords + 2
      \<and> (length sentence = maxWords + 2
          \<or> continuationsOf db (sentence ! (length sentence - 2),
                                  sentence ! (length sentence - 1)) = [])"
    using walk_bound [of db rnd maxWords p1 p2] unfolding s [symmetric] by (rule bounded_shape)
  from b show "2 \<le> length sentence" by simp
  from b show "length sentence \<le> maxWords + 2" by simp
  from b show "length sentence = maxWords + 2
          \<or> continuationsOf db (sentence ! (length sentence - 2),
                                  sentence ! (length sentence - 1)) = []" by simp
next
  assume a: "fst (seeded_walk db rnd maxWords startCandidates) = sentence'"
  from seeded_walk_unfold obtain rnd' p1 p2 where
    "seeded_walk db rnd maxWords startCandidates = walk db rnd' maxWords p1 p2 [p1, p2]"
    by blast
  with a have s: "sentence' = fst (walk db rnd' maxWords p1 p2 [p1, p2])" by simp
  have b: "2 \<le> length sentence' \<and> length sentence' \<le> maxWords + 2
      \<and> (length sentence' = maxWords + 2
          \<or> continuationsOf db (sentence' ! (length sentence' - 2),
                                  sentence' ! (length sentence' - 1)) = [])"
    using walk_bound [of db rnd' maxWords p1 p2] unfolding s [symmetric] by (rule bounded_shape)
  from b show "2 \<le> length sentence'" by simp
  from b show "length sentence' \<le> maxWords + 2" by simp
  from b show "length sentence' = maxWords + 2
          \<or> continuationsOf db (sentence' ! (length sentence' - 2),
                                  sentence' ! (length sentence' - 1)) = []" by simp
qed

theorem bounded_length_witness:
  "generateMarkovSentence_sentence example_db 0 (\<lambda>k. 0) 1 = Some [[0x61], [0x62], [0x63]]
   \<and> fst (seeded_walk example_db (\<lambda>k. 0) 5 [([0x62], [0x63])]) = [[0x62], [0x63], [0x64]]
   \<and> length [[0x61], [0x62], [0x63 :: jschar]] = 1 + 2
   \<and> length [[0x62], [0x63], [0x64 :: jschar]] \<le> 5 + 2
   \<and> continuationsOf example_db ([0x63], [0x64]) = []"
  using bounded_length [of example_db 0 "\<lambda>k. 0" 1 "[[0x61], [0x62], [0x63]]"]
        bounded_length [of example_db 0 "\<lambda>k. 0" 5 _ "[([0x62], [0x63])]" "[[0x62], [0x63], [0x64]]"]
        example_sentence_1 example_seeded_walk
  by (simp add: continuationsOf_def example_db_def dbAll_def select_suffixes_def)


text \<open>
  C7 (empty store).  When the table has no row, unseeded generation returns the
  insufficient-data message; the \<open>try\<close> block returns it normally, nothing is thrown.
  Generation runs \<open>SELECT\<close> statements only, so it has no table to return: the table
  after the call is the table before it.
\<close>

theorem empty_store_sentinel:
  "rows db = [] \<Longrightarrow>
     generateMarkovSentence_try db r rnd maxWords = Inr msg_insufficient_data
     \<and> generateMarkovSentence db r rnd maxWords = msg_insufficient_data"
  by (simp add: generateMarkovSentence_def generateMarkovSentence_try_def
      generateMarkovSentence_sentence_def dbGet_def select_random_start_def)

theorem empty_store_sentinel_witness:
  "rows empty_db = []
   \<and> generateMarkovSentence_try empty_db 7 (\<lambda>k. k) 50 = Inr msg_insufficient_data
   \<and> generateMarkovSentence empty_db 7 (\<lambda>k. k) 50 = msg_insufficient_data"
proof -
  have h: "rows empty_db = []" by (simp add: empty_db_def)
  from empty_store_sentinel [OF h, of 7 "\<lambda>k. k" 50] h show ?thesis by simp
qed


text \<open>
  C10 (at least three words).  On an open connection to a table that is not empty, and
  for \<open>maxWords\<close> at least 1, unseeded generation has a start row, its array \<open>sentence\<close>
  has at least 3 words, and the function returns the words joined: the start pair is
  the prefix pair of a stored row, so the first lookup of continuations finds that
  row's suffix.
\<close>

theorem at_least_three_words:
  assumes "is_open db" and "rows db \<noteq> []" and "1 \<le> maxWords"
  shows "\<exists>sentence. generateMarkovSentence_sentence db r rnd maxWords = Some sentence
           \<and> 3 \<le> length sentence
           \<and> generateMarkovSentence db r rnd maxWords = concat sentence"
proof -
  let ?x = "rows db ! (r mod length (rows db))"
  let ?p1 = "prefix1 ?x" and ?p2 = "prefix2 ?x"
  from assms(2) have "?x \<in> set (rows db)" by simp
  then have "suffix ?x \<in> set (continuationsOf db (?p1, ?p2))"
    using assms(1) by (auto simp: continuationsOf_def dbAll_def select_suffixes_def)
  then have ne: "continuationsOf db (?p1, ?p2) \<noteq> []" by auto
  from assms(3) obtain n where n: "maxWords = Suc n" by (cases maxWords) auto
  have s: "generateMarkovSentence_sentence db r rnd maxWords
             = Some (fst (walk db rnd maxWords ?p1 ?p2 [?p1, ?p2]))"
    using assms(1,2)
    by (simp add: generateMarkovSentence_sentence_def dbGet_def select_random_start_def)
  have "length [?p1, ?p2] < length (fst (walk db rnd (Suc n) ?p1 ?p2 [?p1, ?p2]))"
    using ne by (rule walk_first_step)
  then have "3 \<le> length (fst (walk db rnd maxWords ?p1 ?p2 [?p1, ?p2]))"
    by (simp add: n)
  moreover have "generateMarkovSentence db r rnd maxWords
                   = concat (fst (walk db rnd maxWords ?p1 ?p2 [?p1, ?p2]))"
    by (simp add: generateMarkovSentence_def generateMarkovSentence_try_def s)
  ultimately show ?thesis using s by blast
qed

theorem at_least_three_words_witness:
  "is_open example_db \<and> rows example_db \<noteq> [] \<and> (1::nat) \<le> 1
   \<and> (\<exists>sentence. generateMarkovSentence_sentence example_db 0 (\<lambda>k. 0) 1 = Some sentence
           \<and> 3 \<le> length sentence
           \<and> generateMarkovSentence example_db 0 (\<lambda>k. 0) 1 = concat sentence)"
proof -
  have h1: "is_open example_db" and h2: "rows example_db \<noteq> []"
    by (simp_all add: example_db_def)
  have h3: "(1::nat) \<le> 1" by simp
  from at_least_three_words [OF h1 h2 h3, of 0 "\<lambda>k. 0"] h1 h2 show ?thesis by simp
qed



section \<open>Properties of ingestion\<close>

lemma window_step_upsert:
  "window_step words i st =
     (if nonempty_triple (window_triple words i) then upsertTriple (window_triple words i) st
      else st)"
  by (simp add: window_step_def nonempty_triple_def window_triple_def upsertTriple_def
      insertStmt_run_def)

lemma fold_window_step:
  "fold (window_step words) js st
     = fold upsertTriple (filter nonempty_triple (map (window_triple words) js)) st"
  by (induction js arbitrary: st) (simp_all add: window_step_upsert)

lemma processed_upsertTriple [simp]:
  "processedMessages (upsertTriple t st) = processedMessages st"
  by (simp add: upsertTriple_def)

lemma processed_fold_upsertTriple [simp]:
  "processedMessages (fold upsertTriple ts st) = processedMessages st"
  by (induction ts arbitrary: st) simp_all

lemma process_message_words:
  assumes "message_words tokenize msg = Some words" and "3 \<le> length words"
  shows "process_message tokenize msg st
           = (fold upsertTriple (record_triples words) st)
               \<lparr>processedMessages := processedMessages st + 1\<rparr>"
  using assms
  by (auto simp: process_message_def message_words_def record_triples_def fold_window_step
      Let_def split: option.splits sum.splits if_splits)

lemma process_message_skip:
  assumes "message_words tokenize msg = None
           \<or> (\<exists>ws. message_words tokenize msg = Some ws \<and> length ws < 3)"
  shows "process_message tokenize msg st = st"
  using assms
  by (auto simp: process_message_def message_words_def Let_def
      split: option.splits sum.splits if_splits)








lemma upsertTriple_present:
  "t \<in> set (rows (store st)) \<Longrightarrow> upsertTriple t st = st"
  by (simp add: upsertTriple_def)

lemma rows_upsertTriple:
  "set (rows (store (upsertTriple t st))) = insert t (set (rows (store st)))"
  by (auto simp: upsertTriple_def)

lemma is_open_upsertTriple [simp]:
  "is_open (store (upsertTriple t st)) = is_open (store st)"
  by (simp add: upsertTriple_def)

lemma rows_fold_upsertTriple:
  "set (rows (store (fold upsertTriple ts st))) = set ts \<union> set (rows (store st))"
  by (induction ts arbitrary: st) (auto simp: rows_upsertTriple)

lemma is_open_fold_upsertTriple [simp]:
  "is_open (store (fold upsertTriple ts st)) = is_open (store st)"
  by (induction ts arbitrary: st) simp_all

lemma fold_upsertTriple_present:
  "set ts \<subseteq> set (rows (store st)) \<Longrightarrow> fold upsertTriple ts st = st"
  by (induction ts arbitrary: st) (simp_all add: upsertTriple_present)

lemma process_message_triples:
  "\<exists>k. process_message tokenize msg st
          = (fold upsertTriple (message_triples tokenize msg) st)\<lparr>processedMessages := k\<rparr>"
proof (cases "message_words tokenize msg")
  case None
  then have "process_message tokenize msg st = st" by (simp add: process_message_skip)
  moreover have "message_triples tokenize msg = []" using None by (simp add: message_triples_def)
  ultimately have "process_message tokenize msg st
          = (fold upsertTriple (message_triples tokenize msg) st)
              \<lparr>processedMessages := processedMessages st\<rparr>" by simp
  then show ?thesis by blast
next
  case (Some words)
  show ?thesis
  proof (cases "length words < 3")
    case True
    with Some have "process_message tokenize msg st = st" by (simp add: process_message_skip)
    moreover have "message_triples tokenize msg = []"
      using Some True by (simp add: message_triples_def)
    ultimately have "process_message tokenize msg st
          = (fold upsertTriple (message_triples tokenize msg) st)
              \<lparr>processedMessages := processedMessages st\<rparr>" by simp
    then show ?thesis by blast
  next
    case False
    then have "3 \<le> length words" by simp
    with Some have "process_message tokenize msg st
           = (fold upsertTriple (record_triples words) st)
               \<lparr>processedMessages := processedMessages st + 1\<rparr>"
      by (rule process_message_words)
    moreover have "message_triples tokenize msg = record_triples words"
      using Some False by (simp add: message_triples_def)
    ultimately show ?thesis by auto
  qed
qed

lemma rows_process_message:
  "set (rows (store (process_message tokenize msg st)))
     = set (message_triples tokenize msg) \<union> set (rows (store st))"
proof -
  from process_message_triples obtain k where
    "process_message tokenize msg st
       = (fold upsertTriple (message_triples tokenize msg) st)\<lparr>processedMessages := k\<rparr>"
    by blast
  then show ?thesis by (simp add: rows_fold_upsertTriple)
qed

lemma is_open_process_message [simp]:
  "is_open (store (process_message tokenize msg st)) = is_open (store st)"
proof -
  from process_message_triples obtain k where
    "process_message tokenize msg st
       = (fold upsertTriple (message_triples tokenize msg) st)\<lparr>processedMessages := k\<rparr>"
    by blast
  then show ?thesis by simp
qed

lemma process_message_present:
  assumes "set (message_triples tokenize msg) \<subseteq> set (rows (store st))"
  shows "store (process_message tokenize msg st) = store st
         \<and> insertedChains (process_message tokenize msg st) = insertedChains st"
proof -
  from process_message_triples obtain k where
    "process_message tokenize msg st
       = (fold upsertTriple (message_triples tokenize msg) st)\<lparr>processedMessages := k\<rparr>"
    by blast
  with fold_upsertTriple_present [OF assms] show ?thesis by simp
qed

lemma rows_fold_process_message:
  "set (rows (store (fold (process_message tokenize) messages st)))
     = (\<Union>m \<in> set messages. set (message_triples tokenize m)) \<union> set (rows (store st))"
  by (induction messages arbitrary: st) (auto simp: rows_process_message)

lemma is_open_fold_process_message [simp]:
  "is_open (store (fold (process_message tokenize) messages st)) = is_open (store st)"
  by (induction messages arbitrary: st) simp_all

lemma fold_process_message_present:
  assumes "\<forall>m \<in> set messages. set (message_triples tokenize m) \<subseteq> set (rows (store st))"
  shows "store (fold (process_message tokenize) messages st) = store st
         \<and> insertedChains (fold (process_message tokenize) messages st) = insertedChains st"
  using assms
proof (induction messages arbitrary: st)
  case Nil
  show ?case by simp
next
  case (Cons m messages)
  from Cons.prems have m: "set (message_triples tokenize m) \<subseteq> set (rows (store st))" by simp
  note pm = process_message_present [OF m]
  have "\<forall>m' \<in> set messages. set (message_triples tokenize m')
          \<subseteq> set (rows (store (process_message tokenize m st)))"
    using Cons.prems pm by simp
  from Cons.IH [OF this] pm show ?case by simp
qed

lemma transaction_fn_rerun:
  "store (transaction_fn tokenize (store (transaction_fn tokenize db messages)) messages)
     = store (transaction_fn tokenize db messages)
   \<and> insertedChains
       (transaction_fn tokenize (store (transaction_fn tokenize db messages)) messages) = 0"
proof -
  let ?db1 = "store (transaction_fn tokenize db messages)"
  let ?st = "\<lparr>store = ?db1, processedMessages = 0, insertedChains = 0\<rparr>"
  have "\<forall>m \<in> set messages. set (message_triples tokenize m) \<subseteq> set (rows (store ?st))"
    by (auto simp: transaction_fn_def rows_fold_process_message)
  from fold_process_message_present [OF this] show ?thesis
    by (simp add: transaction_fn_def)
qed

text \<open>
  C2 (idempotent ingestion).  Running the insert statement on a triple that is in the
  table returns the table unchanged and \<open>changes = 0\<close>.  When a batch has been run
  through the transaction, running the same batch again on the resulting table
  succeeds, leaves the table as it is and reports \<open>insertedChains = 0\<close>.
\<close>

theorem idempotent_ingestion:
  "(Row a b c \<in> set (rows db) \<longrightarrow> insertStmt_run db a b c = (db, 0))
   \<and> (transaction tokenize db messages = Inr st1 \<longrightarrow>
        (\<exists>st2. transaction tokenize (store st1) messages = Inr st2
            \<and> store st2 = store st1 \<and> insertedChains st2 = 0))"
proof (intro conjI impI)
  assume "Row a b c \<in> set (rows db)"
  then show "insertStmt_run db a b c = (db, 0)" by (simp add: insertStmt_run_def)
next
  assume a: "transaction tokenize db messages = Inr st1"
  then have op: "is_open db" and st1: "st1 = transaction_fn tokenize db messages"
    by (auto simp: transaction_def split: if_splits)
  have "is_open (store st1)" using op by (simp add: st1 transaction_fn_def)
  then have "transaction tokenize (store st1) messages
               = Inr (transaction_fn tokenize (store st1) messages)"
    by (simp add: transaction_def)
  with transaction_fn_rerun [of tokenize db messages]
  show "\<exists>st2. transaction tokenize (store st1) messages = Inr st2
            \<and> store st2 = store st1 \<and> insertedChains st2 = 0"
    unfolding st1 by blast
qed

lemma example_transaction:
  "transaction char_tokenize empty_db [example_message, short_message, example_message]
     = Inr \<lparr>store = example_db, processedMessages = 2, insertedChains = 2\<rparr>"
  by (simp add: transaction_def transaction_fn_def process_message_def window_step_def
      insertStmt_run_def char_tokenize_def example_message_def short_message_def
      empty_db_def example_db_def upt_rec)

theorem idempotent_ingestion_witness:
  "Row [0x61] [0x62] [0x63] \<in> set (rows example_db)
   \<and> insertStmt_run example_db [0x61] [0x62] [0x63] = (example_db, 0)
   \<and> transaction char_tokenize empty_db [example_message, short_message, example_message]
       = Inr \<lparr>store = example_db, processedMessages = 2, insertedChains = 2\<rparr>
   \<and> (\<exists>st2. transaction char_tokenize example_db
                [example_message, short_message, example_message] = Inr st2
          \<and> store st2 = example_db \<and> insertedChains st2 = 0)"
proof -
  have h: "Row [0x61] [0x62] [0x63] \<in> set (rows example_db)" by (simp add: example_db_def)
  from idempotent_ingestion [of "[0x61]" "[0x62]" "[0x63]" example_db]
       idempotent_ingestion [of _ _ _ empty_db char_tokenize
         "[example_message, short_message, example_message]"
         "\<lparr>store = example_db, processedMessages = 2, insertedChains = 2\<rparr>"]
       h example_transaction
  show ?thesis by simp
qed



section \<open>Properties of seeded generation and of the statistics\<close>

lemma set_select_start_candidates:
  "is_open db \<Longrightarrow>
     set (dbAll (select_start_candidates db a b))
       = {(prefix1 x, prefix2 x) |x. x \<in> set (rows db) \<and> (prefix1 x = a \<or> prefix2 x = b)}"
  by (auto simp: dbAll_def select_start_candidates_def)

lemma for_words_find:
  "for_words db words [] =
     (case find (\<lambda>w. findNodesContaining db w \<noteq> []) words of
        None \<Rightarrow> [] | Some w \<Rightarrow> findNodesContaining db w)"
  by (induction words) (simp_all add: findNodesContaining_def Let_def)

lemma find_start_candidates_eq:
  assumes "2 \<le> length words"
  shows "find_start_candidates db words =
     (if first_search db words = [] then for_words db words [] else first_search db words)"
proof -
  have "drop (length words - 2) words ! 0 = words ! (length words - 2)"
    using assms by simp
  moreover have "drop (length words - 2) words ! 1 = words ! (length words - 1)"
    using assms by (simp add: Suc_diff_Suc numeral_2_eq_2)
  ultimately show ?thesis
    by (simp add: find_start_candidates_def first_search_def Let_def)
qed

lemma find_start_candidates_Nil:
  assumes "2 \<le> length words"
  shows "find_start_candidates db words = []
         \<longleftrightarrow> first_search db words = [] \<and> (\<forall>w \<in> set words. findNodesContaining db w = [])"
  by (auto simp: find_start_candidates_eq [OF assms] for_words_find find_None_iff
      split: option.splits dest: find_Some_iff [THEN iffD1])

lemma list_select_start_candidates:
  "is_open db \<Longrightarrow>
     dbAll (select_start_candidates db a b)
       = map (\<lambda>x. (prefix1 x, prefix2 x))
           (filter (\<lambda>x. prefix1 x = a \<or> prefix2 x = b) (rows db))"
  by (simp add: dbAll_def select_start_candidates_def)

text \<open>
  C5 (seeded entry search), as amended.  On an open connection and for an input of at
  least two words, the first search returns, one for each stored row, the prefix pair
  of every row whose first prefix is the second-to-last word or whose second prefix is
  the last word; a row that has the second-to-last word only as its second prefix, or
  the last word only as its first prefix, is not returned by the first search.  When
  the first search finds a row, its result is the candidate list.  When it finds none,
  the candidate list is \<open>findNodesContaining\<close> of the first word of the input, in
  order, for which that is not empty, and empty when there is no such word;
  \<open>findNodesContaining(word)\<close> returns, one for each stored row, the prefix pair of
  every row with either prefix equal to the word.
\<close>

theorem seeded_entry_search:
  assumes "is_open db" and "2 \<le> length words"
  shows "first_search db words
           = map (\<lambda>x. (prefix1 x, prefix2 x))
               (filter (\<lambda>x. prefix1 x = words ! (length words - 2)
                              \<or> prefix2 x = words ! (length words - 1)) (rows db))
         \<and> set (first_search db words)
           = {(prefix1 x, prefix2 x) |x. x \<in> set (rows db)
                \<and> (prefix1 x = words ! (length words - 2)
                    \<or> prefix2 x = words ! (length words - 1))}
         \<and> (first_search db words \<noteq> [] \<longrightarrow>
              find_start_candidates db words = first_search db words)
         \<and> (first_search db words = [] \<longrightarrow>
              find_start_candidates db words =
                (case find (\<lambda>w. findNodesContaining db w \<noteq> []) words of
                   None \<Rightarrow> [] | Some w \<Rightarrow> findNodesContaining db w))
         \<and> findNodesContaining db word
             = map (\<lambda>x. (prefix1 x, prefix2 x))
                 (filter (\<lambda>x. prefix1 x = word \<or> prefix2 x = word) (rows db))
         \<and> set (findNodesContaining db word)
             = {(prefix1 x, prefix2 x) |x. x \<in> set (rows db)
                  \<and> (prefix1 x = word \<or> prefix2 x = word)}"
proof (intro conjI impI)
  show "first_search db words
           = map (\<lambda>x. (prefix1 x, prefix2 x))
               (filter (\<lambda>x. prefix1 x = words ! (length words - 2)
                              \<or> prefix2 x = words ! (length words - 1)) (rows db))"
    unfolding first_search_def using assms(1) by (rule list_select_start_candidates)
  show "findNodesContaining db word
             = map (\<lambda>x. (prefix1 x, prefix2 x))
                 (filter (\<lambda>x. prefix1 x = word \<or> prefix2 x = word) (rows db))"
    unfolding findNodesContaining_def using assms(1) by (rule list_select_start_candidates)
  show "set (first_search db words)
           = {(prefix1 x, prefix2 x) |x. x \<in> set (rows db)
                \<and> (prefix1 x = words ! (length words - 2)
                    \<or> prefix2 x = words ! (length words - 1))}"
    unfolding first_search_def using assms(1) by (rule set_select_start_candidates)
  show "set (findNodesContaining db word)
             = {(prefix1 x, prefix2 x) |x. x \<in> set (rows db)
                  \<and> (prefix1 x = word \<or> prefix2 x = word)}"
    unfolding findNodesContaining_def using assms(1) by (rule set_select_start_candidates)
next
  assume "first_search db words \<noteq> []"
  then show "find_start_candidates db words = first_search db words"
    by (simp add: find_start_candidates_eq [OF assms(2)])
next
  assume "first_search db words = []"
  then show "find_start_candidates db words =
                (case find (\<lambda>w. findNodesContaining db w \<noteq> []) words of
                   None \<Rightarrow> [] | Some w \<Rightarrow> findNodesContaining db w)"
    by (simp add: find_start_candidates_eq [OF assms(2)] for_words_find)
qed

lemma seed_db_search:
  "find_start_candidates seed_db [[0x61], [0x62]] = [([0x61], [0x71])]"
  "first_search seed_db [[0x61], [0x62]] = [([0x61], [0x71])]"
  "findNodesContaining seed_db [0x61] = [([0x61], [0x71]), ([0x78], [0x61])]"
  by (simp_all add: find_start_candidates_def first_search_def findNodesContaining_def
      seed_db_def dbAll_def select_start_candidates_def)

text \<open>
  The claim as stated fails: with the input words \<open>a\<close>, \<open>b\<close> the stored pair
  \<open>(x, a)\<close> contains the second-to-last word \<open>a\<close>, and is in
  \<open>findNodesContaining(a)\<close>, but it is not a candidate; the only candidate is \<open>(a, q)\<close>.
\<close>

theorem seeded_entry_search_counterexample:
  "([0x78], [0x61]) \<in> set (findNodesContaining seed_db [0x61])
   \<and> find_start_candidates seed_db [[0x61], [0x62]] = [([0x61], [0x71])]
   \<and> ([0x78], [0x61]) \<notin> set (find_start_candidates seed_db [[0x61], [0x62]])"
  by (simp add: seed_db_search)

lemma twice_db_search:
  "first_search twice_db [[0x61], [0x62]] = [([0x61], [0x71]), ([0x61], [0x71]), ([0x6D], [0x62])]"
  "find_start_candidates twice_db [[0x61], [0x62]]
     = [([0x61], [0x71]), ([0x61], [0x71]), ([0x6D], [0x62])]"
  by (simp_all add: find_start_candidates_def first_search_def Let_def
      twice_db_def dbAll_def select_start_candidates_def)

lemma single_db_search:
  "first_search single_db [[0x61], [0x62]] = []"
  "findNodesContaining single_db [0x61] = [([0x78], [0x61])]"
  "find_start_candidates single_db [[0x61], [0x62]] = [([0x78], [0x61])]"
  by (simp_all add: find_start_candidates_def first_search_def findNodesContaining_def Let_def
      single_db_def dbAll_def select_start_candidates_def)

theorem seeded_entry_search_witness:
  "is_open twice_db \<and> is_open single_db \<and> 2 \<le> length [[0x61], [0x62 :: jschar]]
   \<and> first_search twice_db [[0x61], [0x62]]
        = map (\<lambda>x. (prefix1 x, prefix2 x))
            (filter (\<lambda>x. prefix1 x = [0x61] \<or> prefix2 x = [0x62]) (rows twice_db))
   \<and> first_search twice_db [[0x61], [0x62]]
        = [([0x61], [0x71]), ([0x61], [0x71]), ([0x6D], [0x62])]
   \<and> find_start_candidates twice_db [[0x61], [0x62]] = first_search twice_db [[0x61], [0x62]]
   \<and> first_search single_db [[0x61], [0x62]] = []
   \<and> find_start_candidates single_db [[0x61], [0x62]] = findNodesContaining single_db [0x61]
   \<and> findNodesContaining single_db [0x61] = [([0x78], [0x61])]"
proof -
  have h1: "is_open twice_db" by (simp add: twice_db_def)
  have h1': "is_open single_db" by (simp add: single_db_def)
  have h2: "2 \<le> length [[0x61], [0x62 :: jschar]]" by simp
  note t = seeded_entry_search [OF h1 h2]
  note s = seeded_entry_search [OF h1' h2]
  from t have a: "first_search twice_db [[0x61], [0x62]]
        = map (\<lambda>x. (prefix1 x, prefix2 x))
            (filter (\<lambda>x. prefix1 x = [0x61] \<or> prefix2 x = [0x62]) (rows twice_db))"
    by simp
  from t have b: "first_search twice_db [[0x61], [0x62]] \<noteq> [] \<longrightarrow>
      find_start_candidates twice_db [[0x61], [0x62]] = first_search twice_db [[0x61], [0x62]]"
    by blast
  from s have c: "first_search single_db [[0x61], [0x62]] = [] \<longrightarrow>
      find_start_candidates single_db [[0x61], [0x62]] =
        (case find (\<lambda>w. findNodesContaining single_db w \<noteq> []) [[0x61], [0x62]] of
           None \<Rightarrow> [] | Some w \<Rightarrow> findNodesContaining single_db w)"
    by blast
  have d: "find_start_candidates twice_db [[0x61], [0x62]] = first_search twice_db [[0x61], [0x62]]"
    using b by (simp add: twice_db_search(1))
  have e: "find_start_candidates single_db [[0x61], [0x62]] = findNodesContaining single_db [0x61]"
    using c by (simp add: single_db_search(1,2))
  from h1 h1' h2 a d e twice_db_search(1) single_db_search(1,2) show ?thesis
    by blast
qed


text \<open>
  C9 (distinct nodes).  The statistic is computed as the number of distinct
  concatenations \<open>prefix1 || prefix2\<close>.  On the table below the two rows have different
  prefix pairs with the same concatenation: the program reports 1 where the number of
  distinct pairs is 2.
\<close>

theorem distinct_prefix_count_collision:
  "uniquePrefixes collision_db = 1 \<and> countDistinctNodes collision_db = 2"
  by (simp add: uniquePrefixes_def countDistinctNodes_def select_count_distinct_def dbGet_def
      collision_db_def)


lemma response_try_tokens:
  assumes "tokenizer = Some tokenize" and "tokenize inputMessage = Inr tokens"
    and "words = map surface_form tokens"
  shows "generateResponseFromMessage_try tokenizer db r rnd inputMessage maxWords =
     (if length words < 2 then Inr (generateMarkovSentence db r rnd maxWords)
      else if find_start_candidates db words = []
      then Inr (generateMarkovSentence db r rnd maxWords)
      else if length (concat (fst (seeded_walk db rnd maxWords (find_start_candidates db words)))) < 10
      then Inr (generateMarkovSentence db r
                  (snd (seeded_walk db rnd maxWords (find_start_candidates db words))) maxWords)
      else Inr (concat (fst (seeded_walk db rnd maxWords (find_start_candidates db words)))))"
  using assms
  by (simp add: generateResponseFromMessage_try_def Let_def split_beta)

lemma response_tokens:
  assumes "tokenizer = Some tokenize" and "tokenize inputMessage = Inr tokens"
    and "words = map surface_form tokens"
  shows "generateResponseFromMessage tokenizer db r rnd inputMessage maxWords =
     (if length words < 2 then generateMarkovSentence db r rnd maxWords
      else if find_start_candidates db words = []
      then generateMarkovSentence db r rnd maxWords
      else if length (concat (fst (seeded_walk db rnd maxWords (find_start_candidates db words)))) < 10
      then generateMarkovSentence db r
             (snd (seeded_walk db rnd maxWords (find_start_candidates db words))) maxWords
      else concat (fst (seeded_walk db rnd maxWords (find_start_candidates db words))))"
  unfolding generateResponseFromMessage_def response_try_tokens [OF assms]
  by simp

text \<open>
  C6 (fallback chain).  With the tokenizer ready and the input tokenized to \<open>words\<close>,
  seeded generation returns what unseeded generation returns (a) when there are fewer
  than 2 words, (b) when neither the first search nor \<open>findNodesContaining\<close> of any
  word of the input finds a pair, and (c) when a start pair was found but the words of
  the seeded walk, joined, have fewer than 10 code units; in case (c) unseeded generation
  continues the random draws where the seeded walk stopped.  Otherwise the joined words
  of the seeded walk are returned.
\<close>

theorem seeded_fallback_chain:
  assumes "tokenizer = Some tokenize" and "tokenize inputMessage = Inr tokens"
    and "words = map surface_form tokens"
  shows
   "(length words < 2 \<longrightarrow>
       generateResponseFromMessage tokenizer db r rnd inputMessage maxWords
         = generateMarkovSentence db r rnd maxWords)
    \<and> (2 \<le> length words \<and> first_search db words = []
         \<and> (\<forall>w \<in> set words. findNodesContaining db w = []) \<longrightarrow>
       generateResponseFromMessage tokenizer db r rnd inputMessage maxWords
         = generateMarkovSentence db r rnd maxWords)
    \<and> (2 \<le> length words \<and> find_start_candidates db words \<noteq> []
         \<and> length (concat (fst (seeded_walk db rnd maxWords (find_start_candidates db words))))
             < 10 \<longrightarrow>
       generateResponseFromMessage tokenizer db r rnd inputMessage maxWords
         = generateMarkovSentence db r
             (snd (seeded_walk db rnd maxWords (find_start_candidates db words))) maxWords)
    \<and> (2 \<le> length words \<and> find_start_candidates db words \<noteq> []
         \<and> 10 \<le> length (concat (fst (seeded_walk db rnd maxWords
                                        (find_start_candidates db words)))) \<longrightarrow>
       generateResponseFromMessage tokenizer db r rnd inputMessage maxWords
         = concat (fst (seeded_walk db rnd maxWords (find_start_candidates db words))))"
proof (intro conjI impI)
  assume "length words < 2"
  then show "generateResponseFromMessage tokenizer db r rnd inputMessage maxWords
         = generateMarkovSentence db r rnd maxWords"
    by (simp add: response_tokens [OF assms])
next
  assume a: "2 \<le> length words \<and> first_search db words = []
         \<and> (\<forall>w \<in> set words. findNodesContaining db w = [])"
  then have "find_start_candidates db words = []"
    using find_start_candidates_Nil [of words db] by blast
  then show "generateResponseFromMessage tokenizer db r rnd inputMessage maxWords
         = generateMarkovSentence db r rnd maxWords"
    by (simp add: response_tokens [OF assms])
next
  assume "2 \<le> length words \<and> find_start_candidates db words \<noteq> []
         \<and> length (concat (fst (seeded_walk db rnd maxWords (find_start_candidates db words))))
             < 10"
  then show "generateResponseFromMessage tokenizer db r rnd inputMessage maxWords
         = generateMarkovSentence db r
             (snd (seeded_walk db rnd maxWords (find_start_candidates db words))) maxWords"
    by (simp add: response_tokens [OF assms])
next
  assume "2 \<le> length words \<and> find_start_candidates db words \<noteq> []
         \<and> 10 \<le> length (concat (fst (seeded_walk db rnd maxWords
                                        (find_start_candidates db words))))"
  then show "generateResponseFromMessage tokenizer db r rnd inputMessage maxWords
         = concat (fst (seeded_walk db rnd maxWords (find_start_candidates db words)))"
    by (simp add: response_tokens [OF assms])
qed

lemma char_tokenize_words:
  "char_tokenize text = Inr (map (\<lambda>c. \<lparr>surface_form = [c]\<rparr>) text)"
  "map surface_form (map (\<lambda>c. \<lparr>surface_form = [c]\<rparr>) text) = map (\<lambda>c. [c]) text"
  by (simp_all add: char_tokenize_def)

lemma example_candidates:
  "find_start_candidates example_db [[0x61], [0x62]] = [([0x61], [0x62])]"
  "first_search example_db [[0x78], [0x79]] = []"
  "findNodesContaining example_db [0x78] = []"
  "findNodesContaining example_db [0x79] = []"
  "find_start_candidates cycle_db [[0x61], [0x62]] = [([0x61], [0x62])]"
  by (simp_all add: find_start_candidates_def first_search_def findNodesContaining_def
      example_db_def cycle_db_def dbAll_def select_start_candidates_def)

lemma example_short_walk:
  "fst (seeded_walk example_db (\<lambda>k. 0) 5 [([0x61], [0x62])]) = [[0x61], [0x62], [0x63], [0x64]]"
  by (simp add: seeded_walk_def example_db_def dbAll_def
      select_suffixes_def math_random_index_def eval_nat_numeral)

lemma example_long_walk:
  "fst (seeded_walk cycle_db (\<lambda>k. 0) 8 [([0x61], [0x62])])
     = [[0x61], [0x62], [0x61], [0x62], [0x61], [0x62], [0x61], [0x62], [0x61], [0x62]]"
  by (simp add: seeded_walk_def cycle_db_def dbAll_def
      select_suffixes_def math_random_index_def eval_nat_numeral Let_def)

theorem seeded_fallback_chain_witness:
  "generateResponseFromMessage (Some char_tokenize) example_db 0 (\<lambda>k. 0) [0x61] 5
     = generateMarkovSentence example_db 0 (\<lambda>k. 0) 5
   \<and> generateResponseFromMessage (Some char_tokenize) example_db 0 (\<lambda>k. 0) [0x78, 0x79] 5
     = generateMarkovSentence example_db 0 (\<lambda>k. 0) 5
   \<and> length (concat (fst (seeded_walk example_db (\<lambda>k. 0) 5
               (find_start_candidates example_db [[0x61], [0x62]])))) = 4
   \<and> generateResponseFromMessage (Some char_tokenize) example_db 0 (\<lambda>k. 0) [0x61, 0x62] 5
     = generateMarkovSentence example_db 0
         (snd (seeded_walk example_db (\<lambda>k. 0) 5
                 (find_start_candidates example_db [[0x61], [0x62]]))) 5
   \<and> generateResponseFromMessage (Some char_tokenize) cycle_db 0 (\<lambda>k. 0) [0x61, 0x62] 8
     = [0x61, 0x62, 0x61, 0x62, 0x61, 0x62, 0x61, 0x62, 0x61, 0x62]"
proof -
  have t: "Some char_tokenize = Some char_tokenize" by simp
  note a = seeded_fallback_chain [OF t char_tokenize_words(1) refl,
             of "[0x61]" example_db 0 "\<lambda>k. 0" 5]
  note b = seeded_fallback_chain [OF t char_tokenize_words(1) refl,
             of "[0x78, 0x79]" example_db 0 "\<lambda>k. 0" 5]
  note c = seeded_fallback_chain [OF t char_tokenize_words(1) refl,
             of "[0x61, 0x62]" example_db 0 "\<lambda>k. 0" 5]
  note d = seeded_fallback_chain [OF t char_tokenize_words(1) refl,
             of "[0x61, 0x62]" cycle_db 0 "\<lambda>k. 0" 8]
  have 1: "generateResponseFromMessage (Some char_tokenize) example_db 0 (\<lambda>k. 0) [0x61] 5
     = generateMarkovSentence example_db 0 (\<lambda>k. 0) 5"
    using a by simp
  have 2: "generateResponseFromMessage (Some char_tokenize) example_db 0 (\<lambda>k. 0) [0x78, 0x79] 5
     = generateMarkovSentence example_db 0 (\<lambda>k. 0) 5"
    using b by (simp add: example_candidates)
  have 3: "length (concat (fst (seeded_walk example_db (\<lambda>k. 0) 5
               (find_start_candidates example_db [[0x61], [0x62]])))) = 4"
    by (simp add: example_candidates example_short_walk)
  have 4: "generateResponseFromMessage (Some char_tokenize) example_db 0 (\<lambda>k. 0) [0x61, 0x62] 5
     = generateMarkovSentence example_db 0
         (snd (seeded_walk example_db (\<lambda>k. 0) 5
                 (find_start_candidates example_db [[0x61], [0x62]]))) 5"
    using c by (simp add: example_candidates example_short_walk)
  have 5: "generateResponseFromMessage (Some char_tokenize) cycle_db 0 (\<lambda>k. 0) [0x61, 0x62] 8
     = [0x61, 0x62, 0x61, 0x62, 0x61, 0x62, 0x61, 0x62, 0x61, 0x62]"
    using d by (simp add: example_candidates example_long_walk)
  from 1 2 3 4 5 show ?thesis by blast
qed


















end
